theory Spec2Isabelle
  imports Main "HOL-Library.Stream"
begin

section \<open>Exceptions of the helper module\<close>

text \<open>
  The exceptions that the functions of \<^verbatim>\<open>contactregister/helpers.py\<close> can end in.
  \<open>IndexError\<close>, \<open>ValueError\<close>, \<open>EOFError\<close> and \<open>OSError\<close> are Python's own (an
  \<open>OSError\<close> carries its \<open>errno\<close>); the last three are the classes the module declares,
  each holding the one string it is constructed with.
\<close>

datatype error =
    IndexError
  | ValueError
  | EOFError
  | OSError int
  | UnknownQueryField string
  | MalformedQuery string
  | NonexistentFile string

section \<open>Python string and list primitives used by the module\<close>

text \<open>
  A Python \<open>str\<close> is modelled as a \<open>string\<close>, one \<open>char\<close> per code point below 256.
  \<open>is_space\<close> lists the code points below 256 that \<open>str.strip()\<close> removes.
\<close>

definition is_space :: "char \<Rightarrow> bool" where
  "is_space c \<longleftrightarrow> c \<in> set [CHR 0x09, CHR 0x0A, CHR 0x0B, CHR 0x0C, CHR 0x0D,
                            CHR 0x1C, CHR 0x1D, CHR 0x1E, CHR 0x1F, CHR 0x20,
                            CHR 0x85, CHR 0xA0]"

text \<open>\<^verbatim>\<open>s.strip(chars)\<close>: drop from both ends every character that occurs in \<open>chars\<close>.\<close>

definition strip_chars :: "string \<Rightarrow> string \<Rightarrow> string" where
  "strip_chars chars s =
     rev (dropWhile (\<lambda>c. c \<in> set chars) (rev (dropWhile (\<lambda>c. c \<in> set chars) s)))"

text \<open>\<^verbatim>\<open>s.strip()\<close>: drop white space from both ends.\<close>

definition strip :: "string \<Rightarrow> string" where
  "strip s = rev (dropWhile is_space (rev (dropWhile is_space s)))"

text \<open>\<^verbatim>\<open>s.startswith(p)\<close>.\<close>

definition startswith :: "string \<Rightarrow> string \<Rightarrow> bool" where
  "startswith s p \<longleftrightarrow> take (length p) s = p"

text \<open>\<^verbatim>\<open>s.split(sep)\<close> for a one-character separator: never the empty list.\<close>

fun split :: "char \<Rightarrow> string \<Rightarrow> string list" where
  "split sep [] = [[]]"
| "split sep (c # cs) =
     (if c = sep then [] # split sep cs
      else (let r = split sep cs in (c # hd r) # tl r))"

text \<open>\<^verbatim>\<open>s.split(sep, maxsplit)\<close>: at most \<open>maxsplit\<close> cuts, the rest is kept whole.\<close>

fun split_max :: "char \<Rightarrow> nat \<Rightarrow> string \<Rightarrow> string list" where
  "split_max sep 0 s = [s]"
| "split_max sep (Suc n) [] = [[]]"
| "split_max sep (Suc n) (c # cs) =
     (if c = sep then [] # split_max sep n cs
      else (let r = split_max sep (Suc n) cs in (c # hd r) # tl r))"

text \<open>\<^verbatim>\<open>xs[i]\<close>: a negative index counts from the end, an index out of range raises.\<close>

definition getitem :: "'a list \<Rightarrow> int \<Rightarrow> error + 'a" where
  "getitem xs i =
     (if 0 \<le> i \<and> i < int (length xs) then Inr (xs ! nat i)
      else if i < 0 \<and> - int (length xs) \<le> i then Inr (xs ! nat (int (length xs) + i))
      else Inl IndexError)"

section \<open>QueryFilter and parse_query_filters\<close>

record QueryFilter =
  field :: string
  pattern :: string

text \<open>\<^verbatim>\<open>QueryFilter.__init__\<close>: both attributes are stored stripped.\<close>

definition QueryFilter_init :: "string \<Rightarrow> string \<Rightarrow> QueryFilter" where
  "QueryFilter_init f p = \<lparr>field = strip f, pattern = strip p\<rparr>"

text \<open>
  The body of the \<^verbatim>\<open>for\<close> loop of \<^verbatim>\<open>parse_query_filters\<close>, over the list that the
  comprehension has built: \<^verbatim>\<open>filters.append(QueryFilter(query_filter[0], query_filter[1]))\<close>.
  The first index that is out of range ends the loop with its \<open>IndexError\<close>.
\<close>

fun parse_loop :: "string list list \<Rightarrow> QueryFilter list \<Rightarrow> error + QueryFilter list" where
  "parse_loop [] filters = Inr filters"
| "parse_loop (query_filter # rest) filters =
     (case getitem query_filter 0 of
        Inl e \<Rightarrow> Inl e
      | Inr f \<Rightarrow>
         (case getitem query_filter 1 of
            Inl e \<Rightarrow> Inl e
          | Inr p \<Rightarrow> parse_loop rest (filters @ [QueryFilter_init f p])))"

definition parse_query_filters :: "string \<Rightarrow> error + QueryFilter list" where
  "parse_query_filters query =
     parse_loop (map (split_max CHR ''='' (Suc 0)) (split CHR '','' query)) []"

text \<open>
  The query strings the statements below range over: \<open>join_segments segs\<close> is the
  segments of \<open>segs\<close> written one after the other with a comma between neighbours, and
  \<open>segment f p\<close> is the segment \<^verbatim>\<open>f=p\<close>.
\<close>

fun join_segments :: "string list \<Rightarrow> string" where
  "join_segments [] = []"
| "join_segments [s] = s"
| "join_segments (s # t # ss) = s @ CHR '','' # join_segments (t # ss)"

definition segment :: "string \<Rightarrow> string \<Rightarrow> string" where
  "segment f p = f @ CHR ''='' # p"

text \<open>A string has no white space at either end.\<close>

definition trimmed :: "string \<Rightarrow> bool" where
  "trimmed s \<longleftrightarrow> s = [] \<or> (\<not> is_space (hd s) \<and> \<not> is_space (last s))"

section \<open>get_module_files\<close>

text \<open>
  \<^verbatim>\<open>get_module_files(file)\<close> reads the file system twice: \<^verbatim>\<open>os.path.realpath\<close> followed
  by \<^verbatim>\<open>os.path.dirname\<close> gives the directory, \<^verbatim>\<open>os.listdir\<close> its entries or an
  \<open>OSError\<close>. Both are parameters here. The names that do not start with two
  underscores are kept, and \<^verbatim>\<open>filename.strip('.py')\<close> is applied to each.
\<close>

definition get_module_files ::
  "(string \<Rightarrow> string) \<Rightarrow> (string \<Rightarrow> error + string list) \<Rightarrow> string \<Rightarrow> error + string list" where
  "get_module_files dirname_realpath listdir file =
     (let dir_path = dirname_realpath file in
      case listdir dir_path of
        Inl e \<Rightarrow> Inl e
      | Inr names \<Rightarrow>
          (let module_files = filter (\<lambda>x. \<not> startswith x ''__'') names
           in Inr (map (strip_chars ''.py'') module_files)))"

section \<open>get_option_selection\<close>

text \<open>
  \<^verbatim>\<open>int(s)\<close> on a string, base 10: white space around the number is ignored, one sign
  may come first, and the digits may be grouped by single underscores. Anything else is
  a \<open>ValueError\<close>. The limit that newer interpreters put on the number of digits is a
  setting of the interpreter and is left out.
\<close>

definition digit_of :: "char \<Rightarrow> int option" where
  "digit_of c =
     (let n = (of_char c :: nat) in if 48 \<le> n \<and> n \<le> 57 then Some (int n - 48) else None)"

fun int_digits :: "int \<Rightarrow> string \<Rightarrow> int option" where
  "int_digits acc [] = Some acc"
| "int_digits acc [c] =
     (case digit_of c of None \<Rightarrow> None | Some d \<Rightarrow> Some (10 * acc + d))"
| "int_digits acc (c # d # cs) =
     (if c = CHR ''_''
      then (case digit_of d of None \<Rightarrow> None | Some v \<Rightarrow> int_digits (10 * acc + v) cs)
      else (case digit_of c of None \<Rightarrow> None | Some v \<Rightarrow> int_digits (10 * acc + v) (d # cs)))"

definition int_unsigned :: "string \<Rightarrow> int option" where
  "int_unsigned s =
     (case s of
        [] \<Rightarrow> None
      | c # cs \<Rightarrow> (case digit_of c of None \<Rightarrow> None | Some v \<Rightarrow> int_digits v cs))"

definition py_int :: "string \<Rightarrow> error + int" where
  "py_int s =
     (let t = strip s;
          r = (case t of
                 [] \<Rightarrow> None
               | c # cs \<Rightarrow>
                   if c = CHR ''-'' then map_option uminus (int_unsigned cs)
                   else if c = CHR ''+'' then int_unsigned cs
                   else int_unsigned t)
      in case r of None \<Rightarrow> Inl ValueError | Some n \<Rightarrow> Inr n)"

text \<open>
  The console: the lines still to be read from standard input, where \<open>None\<close> is the end
  of the input, and everything written to standard output so far. \<^verbatim>\<open>input(prompt)\<close>
  writes the prompt and reads one line, or raises \<open>EOFError\<close> at the end of the input;
  \<^verbatim>\<open>print(msg)\<close> writes one line.
\<close>

record console =
  stdin :: "string option stream"
  stdout :: "string list"

definition input :: "string \<Rightarrow> console \<Rightarrow> (error + string) \<times> console" where
  "input prompt c =
     (case shd (stdin c) of
        None \<Rightarrow> (Inl EOFError, c\<lparr>stdout := stdout c @ [prompt]\<rparr>)
      | Some line \<Rightarrow> (Inr line, \<lparr>stdin = stl (stdin c), stdout = stdout c @ [prompt]\<rparr>))"

definition print :: "string \<Rightarrow> console \<Rightarrow> console" where
  "print msg c = c\<lparr>stdout := stdout c @ [msg]\<rparr>"

text \<open>
  The \<^verbatim>\<open>while selected_option is None\<close> loop. It may run forever, and then its value
  is \<open>None\<close>; \<open>Some\<close> holds how the loop ended (an exception that the \<^verbatim>\<open>except\<close> clause
  does not catch, or the value of \<^verbatim>\<open>selected_option\<close>) and the console then.
\<close>

partial_function (option) select_loop ::
  "'a list \<Rightarrow> string \<Rightarrow> console \<Rightarrow> ((error + int) \<times> console) option" where
  "select_loop options prompt c =
     (case input prompt c of
        (Inl e, c1) \<Rightarrow> Some (Inl e, c1)
      | (Inr line, c1) \<Rightarrow>
          (case py_int (strip line) of
             Inl e \<Rightarrow>
               if e = ValueError
               then select_loop options prompt
                      (print ''Input value not a valid integer, try again'' c1)
               else Some (Inl e, c1)
           | Inr selected_option \<Rightarrow>
               if \<not> (- 1 < selected_option \<and> selected_option < int (length options))
               then select_loop options prompt
                      (print ''Input value is out of range, try again'' c1)
               else Some (Inr selected_option, c1)))"

text \<open>The loop, then \<^verbatim>\<open>return options[selected_option]\<close>.\<close>

definition get_option_selection ::
  "'a list \<Rightarrow> string \<Rightarrow> console \<Rightarrow> ((error + 'a) \<times> console) option" where
  "get_option_selection options prompt c =
     (case select_loop options prompt c of
        None \<Rightarrow> None
      | Some (Inl e, c') \<Rightarrow> Some (Inl e, c')
      | Some (Inr selected_option, c') \<Rightarrow> Some (getitem options selected_option, c'))"

section \<open>try_create_dir\<close>

definition EEXIST :: int where "EEXIST = 17"
definition ENOENT :: int where "ENOENT = 2"
definition EACCES :: int where "EACCES = 13"
definition ENOTDIR :: int where "ENOTDIR = 20"

text \<open>
  \<^verbatim>\<open>try_create_dir\<close> calls \<^verbatim>\<open>os.makedirs\<close>, which is a parameter here: it takes the
  state of the file system and the path, and gives back the outcome and the new state.
  An \<open>OSError\<close> whose \<open>errno\<close> is \<open>EEXIST\<close> is dropped, every other exception is raised
  again as it is.
\<close>

definition try_create_dir ::
  "('fs \<Rightarrow> 'p \<Rightarrow> (error + unit) \<times> 'fs) \<Rightarrow> 'p \<Rightarrow> 'fs \<Rightarrow> (error + unit) \<times> 'fs" where
  "try_create_dir makedirs directory_path fs =
     (case makedirs fs directory_path of
        (Inr u, fs') \<Rightarrow> (Inr (), fs')
      | (Inl e, fs') \<Rightarrow>
          (case e of
             OSError errno \<Rightarrow> if errno \<noteq> EEXIST then (Inl e, fs') else (Inr (), fs')
           | _ \<Rightarrow> (Inl e, fs')))"

text \<open>
  A file system to run \<^verbatim>\<open>try_create_dir\<close> on, after POSIX \<^verbatim>\<open>mkdir\<close> and the
  \<^verbatim>\<open>os.makedirs\<close> of the Python standard library (with \<^verbatim>\<open>exist_ok=False\<close>). A path is
  the list of its components with the last component first, so the parent of
  \<open>name # parent\<close> is \<open>parent\<close> and \<open>[]\<close> is the root. An entry is a file or a directory,
  and a directory is writable or not. \<open>lookup\<close> resolves a path from the root: an entry
  is found only below directories.
\<close>

datatype node = File | Dir bool

type_synonym path = "string list"

type_synonym filesystem = "path \<Rightarrow> node option"

fun lookup :: "filesystem \<Rightarrow> path \<Rightarrow> node option" where
  "lookup fs [] = Some (Dir True)"
| "lookup fs (name # parent) =
     (case lookup fs parent of Some (Dir w) \<Rightarrow> fs (name # parent) | _ \<Rightarrow> None)"

fun os_mkdir :: "filesystem \<Rightarrow> path \<Rightarrow> (error + unit) \<times> filesystem" where
  "os_mkdir fs [] = (Inl (OSError EEXIST), fs)"
| "os_mkdir fs (name # parent) =
     (case lookup fs parent of
        None \<Rightarrow> (Inl (OSError ENOENT), fs)
      | Some File \<Rightarrow> (Inl (OSError ENOTDIR), fs)
      | Some (Dir w) \<Rightarrow>
          if fs (name # parent) \<noteq> None then (Inl (OSError EEXIST), fs)
          else if \<not> w then (Inl (OSError EACCES), fs)
          else (Inr (), fs(name # parent \<mapsto> Dir True)))"

text \<open>
  \<^verbatim>\<open>os.makedirs(name)\<close>: when the parent does not exist it is made first, by the same
  function, and a \<open>FileExistsError\<close> from that call is passed over; then \<^verbatim>\<open>mkdir(name)\<close>,
  whose error is raised as it is.
\<close>

fun os_makedirs :: "filesystem \<Rightarrow> path \<Rightarrow> (error + unit) \<times> filesystem" where
  "os_makedirs fs [] = os_mkdir fs []"
| "os_makedirs fs (tail # head) =
     (if lookup fs head = None
      then (case os_makedirs fs head of
              (Inr u, fs') \<Rightarrow> os_mkdir fs' (tail # head)
            | (Inl e, fs') \<Rightarrow>
                if e = OSError EEXIST then os_mkdir fs' (tail # head) else (Inl e, fs'))
      else os_mkdir fs (tail # head))"

section \<open>Splitting and stripping\<close>

lemma split_no_sep: "sep \<notin> set s \<Longrightarrow> split sep s = [s]"
  by (induction s) (auto simp: Let_def)

lemma split_append_sep: "sep \<notin> set s \<Longrightarrow> split sep (s @ sep # t) = s # split sep t"
  by (induction s) (auto simp: Let_def)

lemma split_join_segments:
  "segs \<noteq> [] \<Longrightarrow> \<forall>s\<in>set segs. CHR '','' \<notin> set s \<Longrightarrow>
   split CHR '','' (join_segments segs) = segs"
proof (induction segs rule: join_segments.induct)
  case 1
  then show ?case by simp
next
  case (2 s)
  then show ?case by (simp add: split_no_sep)
next
  case (3 s t ss)
  then show ?case by (simp add: split_append_sep)
qed

lemma split_max_no_sep: "sep \<notin> set s \<Longrightarrow> split_max sep n s = [s]"
proof (induction s)
  case Nil
  then show ?case by (cases n) simp_all
next
  case (Cons c s)
  then show ?case by (cases n) (auto simp: Let_def)
qed

lemma split_max_first:
  "sep \<notin> set f \<Longrightarrow> split_max sep (Suc 0) (f @ sep # p) = [f, p]"
  by (induction f) (auto simp: Let_def)

lemma split_max_segment:
  "CHR ''='' \<notin> set f \<Longrightarrow> split_max CHR ''='' (Suc 0) (segment f p) = [f, p]"
  by (simp add: segment_def split_max_first)

lemma split_max_segments:
  "\<forall>(f, p)\<in>set fps. CHR ''='' \<notin> set f \<Longrightarrow>
   map (split_max CHR ''='' (Suc 0)) (map (\<lambda>(f, p). segment f p) fps) =
   map (\<lambda>(f, p). [f, p]) fps"
  by (induction fps) (auto simp: split_max_segment)

lemma segment_decompose:
  "CHR ''='' \<in> set s \<Longrightarrow> \<exists>f p. s = segment f p \<and> CHR ''='' \<notin> set f"
  unfolding segment_def by (fact split_list_first)

lemma trim_both_ends:
  assumes "rev (dropWhile P (rev (dropWhile P s))) \<noteq> []"
  shows "\<not> P (hd (rev (dropWhile P (rev (dropWhile P s))))) \<and>
         \<not> P (last (rev (dropWhile P (rev (dropWhile P s)))))"
proof -
  define t where "t = dropWhile P s"
  define u where "u = dropWhile P (rev t)"
  have u: "u \<noteq> []"
    using assms unfolding u_def t_def by (simp only: rev_is_Nil_conv not_False_eq_True)
  have t: "t \<noteq> []"
  proof
    assume "t = []"
    then have "u = []" unfolding u_def by simp
    with u show False by contradiction
  qed
  have hd_u: "\<not> P (hd u)"
    using u unfolding u_def by (rule hd_dropWhile)
  have hd_t: "\<not> P (hd t)"
    using t unfolding t_def by (rule hd_dropWhile)
  have "last (takeWhile P (rev t) @ u) = last u"
    using u by (rule last_appendR)
  then have "last (rev t) = last u"
    unfolding u_def by (simp only: takeWhile_dropWhile_id)
  then have "last u = hd t"
    using t by (simp add: last_rev)
  with hd_t have "\<not> P (last u)" by simp
  then have "\<not> P (hd (rev u))" using u by (simp add: hd_rev)
  moreover have "\<not> P (last (rev u))" using hd_u u by (simp add: last_rev)
  ultimately show ?thesis unfolding u_def t_def by blast
qed

lemma trimmed_strip: "trimmed (strip s)"
  unfolding trimmed_def using trim_both_ends [of is_space s] by (auto simp: strip_def)

lemma trimmed_QueryFilter_init:
  "trimmed (field (QueryFilter_init f p)) \<and> trimmed (pattern (QueryFilter_init f p))"
  by (simp add: QueryFilter_init_def trimmed_strip)

section \<open>The loop of parse_query_filters\<close>

lemma parse_loop_pairs:
  "parse_loop (map (\<lambda>(f, p). [f, p]) fps) acc =
   Inr (acc @ map (\<lambda>(f, p). QueryFilter_init f p) fps)"
  by (induction fps arbitrary: acc) (auto simp: getitem_def)

lemma parse_loop_short:
  "\<exists>qf\<in>set parts. length qf < 2 \<Longrightarrow> parse_loop parts acc = Inl IndexError"
proof (induction parts arbitrary: acc)
  case Nil
  then show ?case by simp
next
  case (Cons qf parts)
  show ?case
  proof (cases "length qf < 2")
    case True
    then have "qf = [] \<or> (\<exists>a. qf = [a])"
      by (cases qf; cases "tl qf"; auto)
    then show ?thesis by (auto simp: getitem_def)
  next
    case False
    with Cons.prems have "\<exists>qf\<in>set parts. length qf < 2" by auto
    then have "parse_loop parts acc' = Inl IndexError" for acc'
      by (rule Cons.IH)
    moreover from False obtain a b r where "qf = a # b # r"
      by (cases qf; cases "tl qf"; auto)
    ultimately show ?thesis by (simp add: getitem_def)
  qed
qed

lemma parse_loop_trimmed:
  "parse_loop parts acc = Inr fs \<Longrightarrow>
   \<forall>x\<in>set acc. trimmed (field x) \<and> trimmed (pattern x) \<Longrightarrow>
   \<forall>x\<in>set fs. trimmed (field x) \<and> trimmed (pattern x)"
proof (induction parts arbitrary: acc)
  case Nil
  then show ?case by simp
next
  case (Cons qf parts)
  from Cons.prems(1) obtain f p where
    step: "parse_loop parts (acc @ [QueryFilter_init f p]) = Inr fs"
    by (auto split: sum.splits)
  have "\<forall>x\<in>set (acc @ [QueryFilter_init f p]). trimmed (field x) \<and> trimmed (pattern x)"
    using Cons.prems(2) trimmed_QueryFilter_init by auto
  with step show ?case by (rule Cons.IH)
qed

lemma parse_pairs:
  assumes "fps \<noteq> []"
    and "\<forall>(f, p)\<in>set fps. CHR ''='' \<notin> set f \<and> CHR '','' \<notin> set f \<and> CHR '','' \<notin> set p"
  shows "parse_query_filters (join_segments (map (\<lambda>(f, p). segment f p) fps)) =
         Inr (map (\<lambda>(f, p). QueryFilter_init f p) fps)"
proof -
  let ?segs = "map (\<lambda>(f, p). segment f p) fps"
  have "?segs \<noteq> []" using assms(1) by simp
  moreover have "\<forall>s\<in>set ?segs. CHR '','' \<notin> set s"
    using assms(2) by (auto simp: segment_def)
  ultimately have "split CHR '','' (join_segments ?segs) = ?segs"
    by (rule split_join_segments)
  moreover have "map (split_max CHR ''='' (Suc 0)) ?segs = map (\<lambda>(f, p). [f, p]) fps"
    using assms(2) by (intro split_max_segments) auto
  ultimately show ?thesis
    by (simp only: parse_query_filters_def parse_loop_pairs append_Nil)
qed

lemma segments_as_pairs:
  "\<forall>s\<in>set segs. CHR '','' \<notin> set s \<and> CHR ''='' \<in> set s \<Longrightarrow>
   \<exists>fps. segs = map (\<lambda>(f, p). segment f p) fps \<and>
         (\<forall>(f, p)\<in>set fps. CHR ''='' \<notin> set f \<and> CHR '','' \<notin> set f \<and> CHR '','' \<notin> set p)"
proof (induction segs)
  case Nil
  then show ?case by simp
next
  case (Cons s segs)
  from Cons.prems have s: "CHR '','' \<notin> set s" "CHR ''='' \<in> set s"
    and rest: "\<forall>s\<in>set segs. CHR '','' \<notin> set s \<and> CHR ''='' \<in> set s"
    by simp_all
  from Cons.IH [OF rest] obtain fps where fps: "segs = map (\<lambda>(f, p). segment f p) fps"
    "\<forall>(f, p)\<in>set fps. CHR ''='' \<notin> set f \<and> CHR '','' \<notin> set f \<and> CHR '','' \<notin> set p"
    by blast
  from segment_decompose [OF s(2)] obtain f p where fp: "s = segment f p" "CHR ''='' \<notin> set f"
    by blast
  from s(1) fp(1) have "CHR '','' \<notin> set f \<and> CHR '','' \<notin> set p"
    by (simp add: segment_def)
  then have fp': "CHR '','' \<notin> set f" "CHR '','' \<notin> set p" by simp_all
  show ?case
  proof (rule exI [of _ "(f, p) # fps"])
    show "s # segs = map (\<lambda>(f, p). segment f p) ((f, p) # fps) \<and>
      (\<forall>(f, p)\<in>set ((f, p) # fps).
         CHR ''='' \<notin> set f \<and> CHR '','' \<notin> set f \<and> CHR '','' \<notin> set p)"
      using fps fp fp' by simp
  qed
qed

lemma parse_in_context:
  assumes ctx: "\<forall>s\<in>set (pre @ post). CHR '','' \<notin> set s \<and> CHR ''='' \<in> set s"
    and f: "CHR ''='' \<notin> set f" "CHR '','' \<notin> set f" and p: "CHR '','' \<notin> set p"
  shows "\<exists>fs. parse_query_filters (join_segments (pre @ segment f p # post)) = Inr fs \<and>
              length fs = Suc (length pre + length post) \<and>
              fs ! length pre = QueryFilter_init f p"
proof -
  from ctx obtain fpre where fpre: "pre = map (\<lambda>(f, p). segment f p) fpre"
    "\<forall>(f, p)\<in>set fpre. CHR ''='' \<notin> set f \<and> CHR '','' \<notin> set f \<and> CHR '','' \<notin> set p"
    using segments_as_pairs [of pre] by auto
  from ctx obtain fpost where fpost: "post = map (\<lambda>(f, p). segment f p) fpost"
    "\<forall>(f, p)\<in>set fpost. CHR ''='' \<notin> set f \<and> CHR '','' \<notin> set f \<and> CHR '','' \<notin> set p"
    using segments_as_pairs [of post] by auto
  let ?fps = "fpre @ (f, p) # fpost"
  have eq: "pre @ segment f p # post = map (\<lambda>(f, p). segment f p) ?fps"
    using fpre(1) fpost(1) by simp
  have "?fps \<noteq> []" by simp
  moreover have "\<forall>(f, p)\<in>set ?fps. CHR ''='' \<notin> set f \<and> CHR '','' \<notin> set f \<and> CHR '','' \<notin> set p"
    using fpre(2) fpost(2) f p by auto
  ultimately have "parse_query_filters (join_segments (map (\<lambda>(f, p). segment f p) ?fps)) =
         Inr (map (\<lambda>(f, p). QueryFilter_init f p) ?fps)"
    by (rule parse_pairs)
  moreover have "length (map (\<lambda>(f, p). QueryFilter_init f p) ?fps) = Suc (length pre + length post)"
    using fpre(1) fpost(1) by simp
  moreover have "map (\<lambda>(f, p). QueryFilter_init f p) ?fps ! length pre = QueryFilter_init f p"
    using fpre(1) by (simp add: nth_append)
  ultimately show ?thesis unfolding eq by blast
qed

section \<open>The loop of get_option_selection\<close>

lemma py_int_error: "py_int s = Inl e \<Longrightarrow> e = ValueError"
  by (auto simp: py_int_def Let_def split: option.splits)

lemma select_loop_accept:
  assumes "shd (stdin c) = Some line" and "py_int (strip line) = Inr i"
    and "0 \<le> i" and "i < int (length options)"
  shows "select_loop options prompt c =
         Some (Inr i, \<lparr>stdin = stl (stdin c), stdout = stdout c @ [prompt]\<rparr>)"
  using assms by (subst select_loop.simps) (simp add: input_def)

lemma select_loop_reject:
  assumes "shd (stdin c) = Some line"
    and "\<forall>n. py_int (strip line) = Inr n \<longrightarrow> \<not> (0 \<le> n \<and> n < int (length options))"
  shows "select_loop options prompt c =
         select_loop options prompt
           \<lparr>stdin = stl (stdin c),
            stdout = stdout c @ [prompt,
              if py_int (strip line) = Inl ValueError
              then ''Input value not a valid integer, try again''
              else ''Input value is out of range, try again'']\<rparr>"
proof (cases "py_int (strip line)")
  case (Inl e)
  then have "e = ValueError" by (rule py_int_error)
  with Inl assms(1) show ?thesis
    by (subst select_loop.simps) (simp add: input_def print_def)
next
  case (Inr n)
  with assms(2) have "\<not> (0 \<le> n \<and> n < int (length options))" by simp
  then have "\<not> (- 1 < n \<and> n < int (length options))" by arith
  with Inr assms(1) show ?thesis
    by (subst select_loop.simps) (simp add: input_def print_def)
qed

lemma select_loop_lines:
  assumes "\<forall>l\<in>set bad. \<forall>n. py_int (strip l) = Inr n \<longrightarrow> \<not> (0 \<le> n \<and> n < int (length options))"
    and "py_int (strip good) = Inr i" and "0 \<le> i" and "i < int (length options)"
  shows "select_loop options prompt \<lparr>stdin = map Some bad @- (Some good ## rest), stdout = out\<rparr> =
         Some (Inr i,
           \<lparr>stdin = rest,
            stdout = out @ concat (map (\<lambda>l. [prompt,
                if py_int (strip l) = Inl ValueError
                then ''Input value not a valid integer, try again''
                else ''Input value is out of range, try again'']) bad) @ [prompt]\<rparr>)"
  using assms(1)
proof (induction bad arbitrary: out)
  case Nil
  show ?case using assms(2-4) by (simp add: select_loop_accept)
next
  case (Cons l bad)
  from Cons.prems have l: "\<forall>n. py_int (strip l) = Inr n \<longrightarrow> \<not> (0 \<le> n \<and> n < int (length options))"
    and rest: "\<forall>l\<in>set bad. \<forall>n. py_int (strip l) = Inr n \<longrightarrow> \<not> (0 \<le> n \<and> n < int (length options))"
    by simp_all
  let ?c = "\<lparr>stdin = map Some (l # bad) @- (Some good ## rest), stdout = out\<rparr>"
  have "shd (stdin ?c) = Some l" by simp
  from select_loop_reject [OF this l, of prompt] Cons.IH [OF rest]
  show ?case by simp
qed

lemmas select_loop_induct = select_loop.raw_induct [rotated 1, consumes 1, case_names step]

lemma select_loop_in_range:
  assumes "select_loop options prompt c = Some y"
  shows "case fst y of Inl e \<Rightarrow> e = EOFError | Inr i \<Rightarrow> 0 \<le> i \<and> i < int (length options)"
  using assms
proof (induction options prompt c y rule: select_loop_induct)
  case (step loop options prompt c y)
  show ?case
  proof (cases "shd (stdin c)")
    case None
    with step.hyps show ?thesis by (auto simp: input_def)
  next
    case (Some line)
    show ?thesis
    proof (cases "py_int (strip line)")
      case (Inl e)
      then have "e = ValueError" by (rule py_int_error)
      with Inl Some step.hyps obtain c' where "loop options prompt c' = Some y"
        by (auto simp: input_def)
      then show ?thesis by (rule step.IH)
    next
      case (Inr n)
      show ?thesis
      proof (cases "- 1 < n \<and> n < int (length options)")
        case True
        with Inr Some step.hyps show ?thesis by (auto simp: input_def)
      next
        case False
        with Inr Some step.hyps obtain c' where "loop options prompt c' = Some y"
          by (auto simp: input_def)
        then show ?thesis by (rule step.IH)
      qed
    qed
  qed
qed

lemma select_loop_empty:
  assumes "select_loop options prompt c = Some y" and "options = []"
  shows "\<exists>n. stdin c !! n = None"
  using assms
proof (induction options prompt c y rule: select_loop_induct)
  case (step loop options prompt c y)
  show ?case
  proof (cases "shd (stdin c)")
    case None
    then have "stdin c !! 0 = None" by simp
    then show ?thesis by blast
  next
    case (Some line)
    have "\<exists>c'. loop options prompt c' = Some y \<and> stdin c' = stl (stdin c)"
    proof (cases "py_int (strip line)")
      case (Inl e)
      then have "e = ValueError" by (rule py_int_error)
      with Inl Some step.hyps show ?thesis by (auto simp: input_def print_def)
    next
      case (Inr n)
      with Some step.hyps step.prems show ?thesis by (auto simp: input_def print_def)
    qed
    then obtain c' where "loop options prompt c' = Some y" and c': "stdin c' = stl (stdin c)"
      by blast
    from step.IH [OF this(1) step.prems] c' obtain n where "stl (stdin c) !! n = None" by auto
    then have "stdin c !! Suc n = None" by simp
    then show ?thesis by blast
  qed
qed

lemma select_loop_Inr:
  "select_loop options prompt c = Some (Inr i, c') \<Longrightarrow> 0 \<le> i \<and> i < int (length options)"
  using select_loop_in_range [of options prompt c "(Inr i, c')"] by simp

lemma select_loop_Inl:
  "select_loop options prompt c = Some (Inl e, c') \<Longrightarrow> e = EOFError"
  using select_loop_in_range [of options prompt c "(Inl e, c')"] by simp

lemma get_option_selection_Inr:
  "select_loop options prompt c = Some (Inr i, c') \<Longrightarrow>
   get_option_selection options prompt c = Some (Inr (options ! nat i), c')"
  using select_loop_Inr [of options prompt c i c']
  by (simp add: get_option_selection_def getitem_def)

lemma get_option_selection_cases:
  assumes "get_option_selection options prompt c = Some (r, c')"
  shows "r = Inl EOFError \<or>
         (\<exists>i. 0 \<le> i \<and> i < int (length options) \<and> r = Inr (options ! nat i))"
proof -
  from assms obtain y where y: "select_loop options prompt c = Some y"
    by (auto simp: get_option_selection_def split: option.splits)
  obtain r' d where yd: "y = (r', d)" by (cases y)
  show ?thesis
  proof (cases r')
    case (Inl e)
    with y yd have "e = EOFError" using select_loop_Inl by blast
    with assms y yd Inl show ?thesis by (simp add: get_option_selection_def)
  next
    case (Inr j)
    with y yd have sel: "select_loop options prompt c = Some (Inr j, d)" by simp
    from select_loop_Inr [OF sel] get_option_selection_Inr [OF sel] assms
    show ?thesis by auto
  qed
qed

lemma get_option_selection_forever:
  assumes "\<forall>n. stdin c !! n \<noteq> None"
  shows "get_option_selection ([]::'a list) prompt c = None"
proof -
  have "select_loop ([]::'a list) prompt c = None"
  proof (cases "select_loop ([]::'a list) prompt c")
    case None
    then show ?thesis .
  next
    case (Some y)
    then have "\<exists>n. stdin c !! n = None" by (rule select_loop_empty) simp
    with assms show ?thesis by blast
  qed
  then show ?thesis by (simp add: get_option_selection_def)
qed

section \<open>Creating directories\<close>

lemma lookup_update_shorter:
  "length q < length p \<Longrightarrow> lookup (fs(p \<mapsto> v)) q = lookup fs q"
  by (induction q) (auto split: option.splits node.splits)

lemma lookup_parent:
  "lookup fs (name # parent) \<noteq> None \<Longrightarrow> \<exists>w. lookup fs parent = Some (Dir w)"
  by (auto split: option.splits node.splits)

lemma os_mkdir_existing:
  "lookup fs p \<noteq> None \<Longrightarrow> os_mkdir fs p = (Inl (OSError EEXIST), fs)"
  by (cases p) (auto split: option.splits node.splits)

lemma os_makedirs_existing:
  "lookup fs p \<noteq> None \<Longrightarrow> os_makedirs fs p = (Inl (OSError EEXIST), fs)"
proof (cases p)
  case Nil
  then show ?thesis by simp
next
  case (Cons tail head)
  assume ex: "lookup fs p \<noteq> None"
  with Cons obtain w where "lookup fs head = Some (Dir w)"
    using lookup_parent [of fs tail head] by auto
  with Cons have "os_makedirs fs p = os_mkdir fs p" by simp
  also have "\<dots> = (Inl (OSError EEXIST), fs)" using ex by (rule os_mkdir_existing)
  finally show ?thesis .
qed

lemma try_create_dir_existing:
  "lookup fs p \<noteq> None \<Longrightarrow> try_create_dir os_makedirs p fs = (Inr (), fs)"
  by (simp add: try_create_dir_def os_makedirs_existing)

lemma os_mkdir_ok:
  "os_mkdir fs p = (Inr u, fs1) \<Longrightarrow> lookup fs1 p = Some (Dir True)"
proof (cases p)
  case Nil
  assume "os_mkdir fs p = (Inr u, fs1)"
  with Nil show ?thesis by simp
next
  case (Cons name parent)
  assume "os_mkdir fs p = (Inr u, fs1)"
  with Cons have fs1: "fs1 = fs(p \<mapsto> Dir True)" and par: "lookup fs parent = Some (Dir True)"
    by (auto split: option.splits node.splits if_splits)
  have "lookup fs1 parent = lookup fs parent"
    unfolding fs1 using Cons by (simp add: lookup_update_shorter)
  with par fs1 Cons show ?thesis by simp
qed

lemma os_mkdir_EEXIST:
  "os_mkdir fs p = (Inl (OSError EEXIST), fs1) \<Longrightarrow> lookup fs1 p \<noteq> None"
  by (cases p) (auto simp: EEXIST_def ENOENT_def ENOTDIR_def EACCES_def
      split: option.splits node.splits if_splits)

lemma os_mkdir_result:
  "os_mkdir fs p = (r, fs1) \<Longrightarrow> r = Inr u \<or> r = Inl (OSError EEXIST) \<Longrightarrow> lookup fs1 p \<noteq> None"
  using os_mkdir_ok os_mkdir_EEXIST by fastforce

lemma os_makedirs_result:
  assumes "os_makedirs fs p = (r, fs1)" and "r = Inr u \<or> r = Inl (OSError EEXIST)"
  shows "lookup fs1 p \<noteq> None"
proof (cases p)
  case Nil
  with assms show ?thesis by simp
next
  case (Cons tail head)
  show ?thesis
  proof (cases "lookup fs head = None")
    case False
    with Cons assms(1) have "os_mkdir fs p = (r, fs1)" by simp
    then show ?thesis using assms(2) by (rule os_mkdir_result)
  next
    case True
    obtain r' fs' where rec: "os_makedirs fs head = (r', fs')" by (cases "os_makedirs fs head")
    show ?thesis
    proof (cases "r' = Inl (OSError EEXIST) \<or> (\<exists>u. r' = Inr u)")
      case True
      with Cons assms(1) rec \<open>lookup fs head = None\<close> have "os_mkdir fs' p = (r, fs1)"
        by (auto split: sum.splits)
      then show ?thesis using assms(2) by (rule os_mkdir_result)
    next
      case False
      with Cons assms(1) rec \<open>lookup fs head = None\<close> have "r = r'"
        by (auto split: sum.splits)
      with False assms(2) show ?thesis by auto
    qed
  qed
qed

lemma try_create_dir_ok_exists:
  assumes "try_create_dir os_makedirs p fs = (Inr (), fs1)"
  shows "lookup fs1 p \<noteq> None"
proof -
  obtain r fs' where m: "os_makedirs fs p = (r, fs')" by (cases "os_makedirs fs p")
  with assms have "fs' = fs1" and "r = Inr () \<or> r = Inl (OSError EEXIST)"
    by (auto simp: try_create_dir_def split: sum.splits error.splits if_splits)
  with m show ?thesis using os_makedirs_result by blast
qed

section \<open>Claims about parse_query_filters and QueryFilter\<close>

text \<open>
  C1 (as amended). A query in which some comma-separated segment has no \<^verbatim>\<open>=\<close> makes
  \<^verbatim>\<open>parse_query_filters\<close> end in Python's \<open>IndexError\<close>, raised by \<^verbatim>\<open>query_filter[1]\<close>
  on the one-element result of the split; the error carries no query string, and
  \<open>MalformedQuery\<close> is not raised. Every query is the comma-join of its segments, so the
  statement covers every such query; the empty query is \<open>join_segments [[]]\<close>.
\<close>

theorem parse_query_filters_missing_separator:
  assumes "\<forall>s\<in>set segs. CHR '','' \<notin> set s"
    and "\<exists>s\<in>set segs. CHR ''='' \<notin> set s"
  shows "parse_query_filters (join_segments segs) = Inl IndexError"
proof -
  from assms(2) have "segs \<noteq> []" by auto
  then have "split CHR '','' (join_segments segs) = segs"
    using assms(1) by (rule split_join_segments)
  moreover from assms(2) obtain s where "s \<in> set segs" "CHR ''='' \<notin> set s" by blast
  then have "\<exists>qf\<in>set (map (split_max CHR ''='' (Suc 0)) segs). length qf < 2"
    by (auto simp: split_max_no_sep intro!: bexI [of _ s])
  ultimately show ?thesis
    by (simp only: parse_query_filters_def parse_loop_short)
qed

text \<open>The amended C1 at the queries \<^verbatim>\<open>a=b,fieldonly\<close> and the empty string.\<close>

theorem parse_query_filters_missing_separator_witness:
  "parse_query_filters ''a=b,fieldonly'' = Inl IndexError \<and>
   parse_query_filters [] = Inl IndexError"
proof -
  have a: "\<forall>s\<in>set [''a=b'', ''fieldonly'']. CHR '','' \<notin> set s" by simp
  have b: "\<exists>s\<in>set [''a=b'', ''fieldonly'']. CHR ''='' \<notin> set s" by simp
  have c: "\<forall>s\<in>set [[]]. CHR '','' \<notin> set s" by simp
  have d: "\<exists>s\<in>set [[]]. CHR ''='' \<notin> set s" by simp
  show ?thesis
    using parse_query_filters_missing_separator [OF a b]
      parse_query_filters_missing_separator [OF c d]
    by simp
qed

text \<open>
  C1 as stated fails: on the query \<^verbatim>\<open>fieldonly\<close> the function ends in \<open>IndexError\<close>, not
  in \<open>MalformedQuery\<close> with the query.
\<close>

theorem parse_query_filters_fieldonly_not_MalformedQuery:
  "parse_query_filters ''fieldonly'' = Inl IndexError \<and>
   parse_query_filters ''fieldonly'' \<noteq> Inl (MalformedQuery ''fieldonly'')"
  by (simp add: parse_query_filters_def getitem_def)

text \<open>
  C3. For a query \<^verbatim>\<open>f1=p1,...,fn=pn\<close> with \<open>n \<ge> 1\<close>, where no field and no pattern has
  a comma and each field is the text before the first \<^verbatim>\<open>=\<close> of its segment (so has no
  \<^verbatim>\<open>=\<close> itself), \<^verbatim>\<open>parse_query_filters\<close> returns exactly \<open>n\<close> filters in the order of the
  segments, the \<open>i\<close>-th with the stripped \<open>i\<close>-th field and pattern. Patterns may contain
  \<^verbatim>\<open>=\<close>, and nothing needs the parts to be non-empty.
\<close>

theorem parse_query_filters_well_formed:
  assumes "fps \<noteq> []"
    and "\<forall>(f, p)\<in>set fps. CHR ''='' \<notin> set f \<and> CHR '','' \<notin> set f \<and> CHR '','' \<notin> set p"
  shows "\<exists>fs. parse_query_filters (join_segments (map (\<lambda>(f, p). segment f p) fps)) = Inr fs \<and>
     length fs = length fps \<and>
     (\<forall>i<length fps. field (fs ! i) = strip (fst (fps ! i)) \<and>
                      pattern (fs ! i) = strip (snd (fps ! i)))"
proof -
  have "\<forall>i<length fps.
      field (map (\<lambda>(f, p). QueryFilter_init f p) fps ! i) = strip (fst (fps ! i)) \<and>
      pattern (map (\<lambda>(f, p). QueryFilter_init f p) fps ! i) = strip (snd (fps ! i))"
    by (simp add: QueryFilter_init_def case_prod_beta)
  then show ?thesis using parse_pairs [OF assms] by simp
qed

text \<open>C3 at the query \<^verbatim>\<open>name= Bob ,age = 42\<close>.\<close>

theorem parse_query_filters_well_formed_witness:
  "\<exists>fs. parse_query_filters ''name= Bob ,age = 42'' = Inr fs \<and> length fs = 2 \<and>
     field (fs ! 0) = ''name'' \<and> pattern (fs ! 0) = ''Bob'' \<and>
     field (fs ! 1) = ''age'' \<and> pattern (fs ! 1) = ''42''"
proof -
  let ?fps = "[(''name'', '' Bob ''), (''age '', '' 42'')]"
  have h1: "?fps \<noteq> []" by simp
  have h2: "\<forall>(f, p)\<in>set ?fps. CHR ''='' \<notin> set f \<and> CHR '','' \<notin> set f \<and> CHR '','' \<notin> set p"
    by simp
  show ?thesis
    using parse_query_filters_well_formed [OF h1 h2]
    by (auto simp: segment_def strip_def is_space_def All_less_Suc numeral_2_eq_2)
qed

text \<open>
  C4. A segment is cut at its first \<^verbatim>\<open>=\<close> only: when the segment is \<^verbatim>\<open>f=p\<close> with no
  \<^verbatim>\<open>=\<close> in \<open>f\<close>, whatever \<^verbatim>\<open>=\<close> characters \<open>p\<close> holds, the filter for that segment has
  the whole of \<open>p\<close> (stripped, as every pattern is) as its pattern. The segment may stand
  anywhere in a query whose other segments each have an \<^verbatim>\<open>=\<close>.
\<close>

theorem parse_query_filters_first_equals:
  assumes "\<forall>s\<in>set (pre @ post). CHR '','' \<notin> set s \<and> CHR ''='' \<in> set s"
    and "CHR ''='' \<notin> set f" and "CHR '','' \<notin> set f" and "CHR '','' \<notin> set p"
  shows "\<exists>fs. parse_query_filters (join_segments (pre @ segment f p # post)) = Inr fs \<and>
              length fs = Suc (length pre + length post) \<and>
              field (fs ! length pre) = strip f \<and>
              pattern (fs ! length pre) = strip p"
  using parse_in_context [OF assms] by (auto simp: QueryFilter_init_def)

text \<open>C4 at the segment \<^verbatim>\<open>field=a=b\<close>, between two other segments.\<close>

theorem parse_query_filters_first_equals_witness:
  "\<exists>fs. parse_query_filters ''x=1,field=a=b,y=2'' = Inr fs \<and> length fs = 3 \<and>
     field (fs ! 1) = ''field'' \<and> pattern (fs ! 1) = ''a=b''"
proof -
  have h1: "\<forall>s\<in>set ([''x=1''] @ [''y=2'']). CHR '','' \<notin> set s \<and> CHR ''='' \<in> set s"
    by simp
  have h2: "CHR ''='' \<notin> set ''field''" by simp
  have h3: "CHR '','' \<notin> set ''field''" by simp
  have h4: "CHR '','' \<notin> set ''a=b''" by simp
  show ?thesis
    using parse_query_filters_first_equals [OF h1 h2 h3 h4]
    by (auto simp: segment_def strip_def is_space_def numeral_3_eq_3)
qed

text \<open>
  C5. \<^verbatim>\<open>QueryFilter(" name ", " Bob ")\<close> has field \<^verbatim>\<open>name\<close> and pattern \<^verbatim>\<open>Bob\<close>; the
  two attributes of every constructed filter have no white space at either end; and so
  have the attributes of every filter that \<^verbatim>\<open>parse_query_filters\<close> returns. The
  constructor and the parser are the only operations of the module that make a filter.
\<close>

theorem QueryFilter_trimmed:
  "QueryFilter_init '' name '' '' Bob '' = \<lparr>field = ''name'', pattern = ''Bob''\<rparr> \<and>
   trimmed (field (QueryFilter_init f p)) \<and> trimmed (pattern (QueryFilter_init f p)) \<and>
   (parse_query_filters query = Inr fs \<longrightarrow>
      (\<forall>x\<in>set fs. trimmed (field x) \<and> trimmed (pattern x)))"
proof -
  have "QueryFilter_init '' name '' '' Bob '' = \<lparr>field = ''name'', pattern = ''Bob''\<rparr>"
    by (simp add: QueryFilter_init_def strip_def is_space_def)
  moreover have "parse_query_filters query = Inr fs \<Longrightarrow>
      \<forall>x\<in>set fs. trimmed (field x) \<and> trimmed (pattern x)"
    unfolding parse_query_filters_def by (erule parse_loop_trimmed) simp
  ultimately show ?thesis using trimmed_QueryFilter_init [of f p] by blast
qed

text \<open>C5 at the query \<^verbatim>\<open> name = Bob \<close>, which parses to one filter.\<close>

theorem QueryFilter_trimmed_witness:
  "parse_query_filters '' name = Bob '' = Inr [\<lparr>field = ''name'', pattern = ''Bob''\<rparr>] \<and>
   trimmed ''name'' \<and> trimmed ''Bob''"
proof -
  have h: "parse_query_filters '' name = Bob '' = Inr [\<lparr>field = ''name'', pattern = ''Bob''\<rparr>]"
    by (simp add: parse_query_filters_def getitem_def QueryFilter_init_def strip_def is_space_def)
  show ?thesis
    using h QueryFilter_trimmed [of "''x''" "''y''" "'' name = Bob ''"
        "[\<lparr>field = ''name'', pattern = ''Bob''\<rparr>]"]
    by simp
qed

text \<open>
  C6. A segment \<^verbatim>\<open>=p\<close> (empty field) or \<^verbatim>\<open>f=\<close> (empty pattern) does not make
  \<^verbatim>\<open>parse_query_filters\<close> raise: in a query whose other segments each have an \<^verbatim>\<open>=\<close>, the
  call returns, and the filter for that segment has the empty string as the attribute of
  the empty part and the stripped text as the other.
\<close>

theorem parse_query_filters_empty_part:
  assumes "\<forall>s\<in>set (pre @ post). CHR '','' \<notin> set s \<and> CHR ''='' \<in> set s"
    and "CHR ''='' \<notin> set f" and "CHR '','' \<notin> set f" and "CHR '','' \<notin> set p"
    and "f = [] \<or> p = []"
  shows "\<exists>fs. parse_query_filters (join_segments (pre @ segment f p # post)) = Inr fs \<and>
              length fs = Suc (length pre + length post) \<and>
              fs ! length pre = \<lparr>field = strip f, pattern = strip p\<rparr> \<and>
              (f = [] \<longrightarrow> field (fs ! length pre) = []) \<and>
              (p = [] \<longrightarrow> pattern (fs ! length pre) = [])"
proof -
  have "strip [] = []" by (simp add: strip_def)
  then show ?thesis
    using parse_in_context [OF assms(1-4)] by (auto simp: QueryFilter_init_def)
qed

text \<open>C6 at the queries \<^verbatim>\<open>field=\<close> and \<^verbatim>\<open>=pattern\<close>.\<close>

theorem parse_query_filters_empty_part_witness:
  "(\<exists>fs. parse_query_filters ''field='' = Inr fs \<and> length fs = 1 \<and>
      fs ! 0 = \<lparr>field = ''field'', pattern = []\<rparr>) \<and>
   (\<exists>fs. parse_query_filters ''=pattern'' = Inr fs \<and> length fs = 1 \<and>
      fs ! 0 = \<lparr>field = [], pattern = ''pattern''\<rparr>)"
proof -
  have h1: "\<forall>s\<in>set ([] @ []). CHR '','' \<notin> set s \<and> CHR ''='' \<in> set s" by simp
  have a: "CHR ''='' \<notin> set ''field''" "CHR '','' \<notin> set ''field''" "CHR '','' \<notin> set []"
    "''field'' = [] \<or> ([]::string) = []" by simp_all
  have b: "CHR ''='' \<notin> set []" "CHR '','' \<notin> set []" "CHR '','' \<notin> set ''pattern''"
    "([]::string) = [] \<or> ''pattern'' = []" by simp_all
  show ?thesis
    using parse_query_filters_empty_part [OF h1 a] parse_query_filters_empty_part [OF h1 b]
    by (auto simp: segment_def strip_def is_space_def)
qed

section \<open>Claims about get_module_files\<close>

text \<open>
  The directory of the example, \<^verbatim>\<open>foo.py\<close>, \<^verbatim>\<open>bar.py\<close> and \<^verbatim>\<open>__init__.py\<close>, gives
  \<^verbatim>\<open>foo\<close> and \<^verbatim>\<open>bar\<close>: neither name starts or ends with one of the characters
  \<^verbatim>\<open>.\<close>, \<^verbatim>\<open>p\<close>, \<^verbatim>\<open>y\<close> once the extension is gone.
\<close>

lemma get_module_files_foo_bar:
  "get_module_files dirname_realpath (\<lambda>d. Inr [''foo.py'', ''bar.py'', ''__init__.py'']) file =
   Inr [''foo'', ''bar'']"
  by (simp add: get_module_files_def startswith_def strip_chars_def)

text \<open>
  C2 fails on the code. \<^verbatim>\<open>filename.strip('.py')\<close> does not remove the extension: it
  removes every leading and trailing \<^verbatim>\<open>.\<close>, \<^verbatim>\<open>p\<close> and \<^verbatim>\<open>y\<close>. In a directory that holds
  \<^verbatim>\<open>happy.py\<close>, \<^verbatim>\<open>notes.txt\<close> and \<^verbatim>\<open>__init__.py\<close> the function returns \<^verbatim>\<open>ha\<close>, not
  \<^verbatim>\<open>happy\<close>, and \<^verbatim>\<open>notes.txt\<close> with its extension.
\<close>

theorem get_module_files_happy:
  "get_module_files dirname_realpath (\<lambda>d. Inr [''happy.py'', ''notes.txt'', ''__init__.py'']) file =
   Inr [''ha'', ''notes.txt'']"
  by (simp add: get_module_files_def startswith_def strip_chars_def)

section \<open>Claims about get_option_selection\<close>

text \<open>
  C7. Let the input hold the lines \<open>bad\<close>, none of which is an integer \<open>n\<close> with
  \<open>0 \<le> n < len(options)\<close>, then a line \<open>good\<close> that is such an integer \<open>i\<close>, then anything.
  Then \<^verbatim>\<open>get_option_selection\<close> returns \<open>options[i]\<close>, having read exactly \<open>bad\<close> and
  \<open>good\<close>; it has written the prompt once per line read and, after each line of \<open>bad\<close>,
  the message for a line that is not an integer or the message for an integer out of
  range, as the line is.
\<close>

theorem get_option_selection_first_valid:
  assumes "\<forall>l\<in>set bad. \<forall>n. py_int (strip l) = Inr n \<longrightarrow> \<not> (0 \<le> n \<and> n < int (length options))"
    and "py_int (strip good) = Inr i" and "0 \<le> i" and "i < int (length options)"
    and "stdin c = map Some bad @- (Some good ## rest)"
  shows "get_option_selection options prompt c =
         Some (Inr (options ! nat i),
           \<lparr>stdin = rest,
            stdout = stdout c @ concat (map (\<lambda>l. [prompt,
                if py_int (strip l) = Inl ValueError
                then ''Input value not a valid integer, try again''
                else ''Input value is out of range, try again'']) bad) @ [prompt]\<rparr>)"
proof -
  have "c = \<lparr>stdin = map Some bad @- (Some good ## rest), stdout = stdout c\<rparr>"
    using assms(5) by simp
  then have "select_loop options prompt c =
         Some (Inr i,
           \<lparr>stdin = rest,
            stdout = stdout c @ concat (map (\<lambda>l. [prompt,
                if py_int (strip l) = Inl ValueError
                then ''Input value not a valid integer, try again''
                else ''Input value is out of range, try again'']) bad) @ [prompt]\<rparr>)"
    using select_loop_lines [OF assms(1-4), of prompt rest "stdout c"] by simp
  then show ?thesis
    using assms(3,4) by (simp add: get_option_selection_def getitem_def)
qed

text \<open>
  C7 on the options \<^verbatim>\<open>a\<close>, \<^verbatim>\<open>b\<close>, \<^verbatim>\<open>c\<close>: the input \<^verbatim>\<open>5\<close> then \<^verbatim>\<open>1\<close> gives \<^verbatim>\<open>b\<close> after
  one message about the range, the input \<^verbatim>\<open>x\<close> then \<^verbatim>\<open>0\<close> gives \<^verbatim>\<open>a\<close> after one message
  about the integer.
\<close>

theorem get_option_selection_first_valid_witness:
  "get_option_selection [''a'', ''b'', ''c''] ''Option: ''
     \<lparr>stdin = Some ''5'' ## Some ''1'' ## sconst None, stdout = []\<rparr> =
   Some (Inr ''b'',
     \<lparr>stdin = sconst None,
      stdout = [''Option: '', ''Input value is out of range, try again'', ''Option: '']\<rparr>) \<and>
   get_option_selection [''a'', ''b'', ''c''] ''Option: ''
     \<lparr>stdin = Some ''x'' ## Some '' 0 '' ## sconst None, stdout = []\<rparr> =
   Some (Inr ''a'',
     \<lparr>stdin = sconst None,
      stdout = [''Option: '', ''Input value not a valid integer, try again'', ''Option: '']\<rparr>)"
proof -
  have five: "py_int (strip ''5'') = Inr 5" and one: "py_int (strip ''1'') = Inr 1"
    and x: "py_int (strip ''x'') = Inl ValueError" and zero: "py_int (strip '' 0 '') = Inr 0"
    by (simp_all add: py_int_def strip_def is_space_def int_unsigned_def digit_of_def)
  have a1: "\<forall>l\<in>set [''5'']. \<forall>n. py_int (strip l) = Inr n \<longrightarrow>
      \<not> (0 \<le> n \<and> n < int (length [''a'', ''b'', ''c'']))"
    using five by simp
  have a2: "(0::int) \<le> 1" and a3: "1 < int (length [''a'', ''b'', ''c''])" by simp_all
  have a4: "stdin \<lparr>stdin = Some ''5'' ## Some ''1'' ## sconst None, stdout = []\<rparr> =
      map Some [''5''] @- (Some ''1'' ## sconst None)" by simp
  have b1: "\<forall>l\<in>set [''x'']. \<forall>n. py_int (strip l) = Inr n \<longrightarrow>
      \<not> (0 \<le> n \<and> n < int (length [''a'', ''b'', ''c'']))"
    using x by simp
  have b2: "(0::int) \<le> 0" and b3: "0 < int (length [''a'', ''b'', ''c''])" by simp_all
  have b4: "stdin \<lparr>stdin = Some ''x'' ## Some '' 0 '' ## sconst None, stdout = []\<rparr> =
      map Some [''x''] @- (Some '' 0 '' ## sconst None)" by simp
  show ?thesis
    using get_option_selection_first_valid [OF a1 one a2 a3 a4, of "''Option: ''"]
      get_option_selection_first_valid [OF b1 zero b2 b3 b4, of "''Option: ''"]
      five x
    by simp
qed

text \<open>
  C10. When the loop ends with a selected index \<open>i\<close>, then \<open>0 \<le> i < len(options)\<close> and the
  function returns \<open>options[i]\<close>; the function never ends in \<open>IndexError\<close>. With an empty
  list of options it never returns a value, and when the input has no end it runs
  forever. (At the end of the input \<^verbatim>\<open>input\<close> raises \<open>EOFError\<close>, which is how the call
  can end without returning.)
\<close>

theorem get_option_selection_index_in_range:
  "(select_loop options prompt c = Some (Inr i, c') \<longrightarrow>
      0 \<le> i \<and> i < int (length options) \<and>
      get_option_selection options prompt c = Some (Inr (options ! nat i), c')) \<and>
   get_option_selection options prompt c \<noteq> Some (Inl IndexError, c') \<and>
   get_option_selection [] prompt c \<noteq> Some (Inr (v::'b), c') \<and>
   ((\<forall>n. stdin c !! n \<noteq> None) \<longrightarrow> get_option_selection ([]::'b list) prompt c = None)"
proof -
  have "get_option_selection options prompt c \<noteq> Some (Inl IndexError, c')"
    using get_option_selection_cases [of options prompt c "Inl IndexError" c'] by auto
  moreover have "get_option_selection [] prompt c \<noteq> Some (Inr v, c')"
    using get_option_selection_cases [of "[]" prompt c "Inr v" c'] by auto
  ultimately show ?thesis
    using select_loop_Inr [of options prompt c i c']
      get_option_selection_Inr [of options prompt c i c']
      get_option_selection_forever [where 'a = 'b, of c prompt]
    by blast
qed

text \<open>
  C10 on the options \<^verbatim>\<open>a\<close>, \<^verbatim>\<open>b\<close>, \<^verbatim>\<open>c\<close> with the input \<^verbatim>\<open>1\<close>, and on no options with
  an input that repeats the line \<^verbatim>\<open>0\<close> for ever.
\<close>

theorem get_option_selection_index_in_range_witness:
  "select_loop [''a'', ''b'', ''c''] ''Option: '' \<lparr>stdin = Some ''1'' ## sconst None, stdout = []\<rparr> =
     Some (Inr 1, \<lparr>stdin = sconst None, stdout = [''Option: '']\<rparr>) \<and>
   get_option_selection [''a'', ''b'', ''c''] ''Option: ''
     \<lparr>stdin = Some ''1'' ## sconst None, stdout = []\<rparr> =
     Some (Inr ''b'', \<lparr>stdin = sconst None, stdout = [''Option: '']\<rparr>) \<and>
   (\<forall>n. sconst (Some ''0'') !! n \<noteq> None) \<and>
   get_option_selection ([]::string list) ''Option: ''
     \<lparr>stdin = sconst (Some ''0''), stdout = []\<rparr> = None"
proof -
  have one: "py_int (strip ''1'') = Inr 1"
    by (simp add: py_int_def strip_def is_space_def int_unsigned_def digit_of_def)
  have h1: "select_loop [''a'', ''b'', ''c''] ''Option: ''
      \<lparr>stdin = Some ''1'' ## sconst None, stdout = []\<rparr> =
     Some (Inr 1, \<lparr>stdin = sconst None, stdout = [''Option: '']\<rparr>)"
    using select_loop_accept [of "\<lparr>stdin = Some ''1'' ## sconst None, stdout = []\<rparr>" "''1''" 1
        "[''a'', ''b'', ''c'']" "''Option: ''"] one
    by simp
  have h2: "\<forall>n. stdin \<lparr>stdin = sconst (Some ''0''), stdout = []\<rparr> !! n \<noteq> None" by simp
  show ?thesis
    using h1 h2
      get_option_selection_index_in_range [where options = "[''a'', ''b'', ''c'']"
        and prompt = "''Option: ''"
        and c = "\<lparr>stdin = Some ''1'' ## sconst None, stdout = []\<rparr>" and i = 1
        and c' = "\<lparr>stdin = sconst None, stdout = [''Option: '']\<rparr>" and v = "''x''"]
      get_option_selection_index_in_range [where options = "[]::string list"
        and prompt = "''Option: ''"
        and c = "\<lparr>stdin = sconst (Some ''0''), stdout = []\<rparr>" and i = 0
        and c' = "\<lparr>stdin = sconst None, stdout = []\<rparr>" and v = "''x''"]
    by simp
qed

section \<open>Claims about try_create_dir\<close>

text \<open>
  C8. Whatever \<^verbatim>\<open>os.makedirs\<close> does, an \<open>OSError\<close> from it whose \<open>errno\<close> is not \<open>EEXIST\<close>
  leaves \<^verbatim>\<open>try_create_dir\<close> as the same \<open>OSError\<close>. On the file system above, a call
  on a path that is a directory returns without an error and changes nothing; and after
  a call that has returned without an error the path exists, and a second call on the
  same path returns without an error as well.
\<close>

theorem try_create_dir_existing_directory:
  "(makedirs fs p = (Inl (OSError errno), fs') \<and> errno \<noteq> EEXIST \<longrightarrow>
      try_create_dir makedirs p fs = (Inl (OSError errno), fs')) \<and>
   (lookup fs0 q = Some (Dir w) \<longrightarrow> try_create_dir os_makedirs q fs0 = (Inr (), fs0)) \<and>
   (try_create_dir os_makedirs q fs0 = (Inr (), fs1) \<longrightarrow>
      lookup fs1 q \<noteq> None \<and> try_create_dir os_makedirs q fs1 = (Inr (), fs1))"
proof -
  have "try_create_dir makedirs p fs = (Inl (OSError errno), fs')"
    if "makedirs fs p = (Inl (OSError errno), fs')" and "errno \<noteq> EEXIST"
    using that by (simp add: try_create_dir_def)
  moreover have "try_create_dir os_makedirs q fs0 = (Inr (), fs0)" if "lookup fs0 q = Some (Dir w)"
    using that by (intro try_create_dir_existing) simp
  moreover have "lookup fs1 q \<noteq> None \<and> try_create_dir os_makedirs q fs1 = (Inr (), fs1)"
    if "try_create_dir os_makedirs q fs0 = (Inr (), fs1)"
    using try_create_dir_ok_exists [OF that] try_create_dir_existing by blast
  ultimately show ?thesis by blast
qed

text \<open>
  C8 at concrete file systems: the parent \<^verbatim>\<open>a\<close> of \<^verbatim>\<open>a/b\<close> is a regular file
  (\<open>ENOTDIR\<close> reaches the caller), or a directory that is not writable (\<open>EACCES\<close> reaches
  the caller); and \<^verbatim>\<open>a/b/c\<close> is created on the empty file system, then asked for again.
\<close>

theorem try_create_dir_existing_directory_witness:
  "try_create_dir os_makedirs [''b'', ''a''] [[''a''] \<mapsto> File] =
     (Inl (OSError ENOTDIR), [[''a''] \<mapsto> File]) \<and>
   try_create_dir os_makedirs [''b'', ''a''] [[''a''] \<mapsto> Dir False] =
     (Inl (OSError EACCES), [[''a''] \<mapsto> Dir False]) \<and>
   try_create_dir os_makedirs [''c'', ''b'', ''a''] Map.empty =
     (Inr (), [[''a''] \<mapsto> Dir True, [''b'', ''a''] \<mapsto> Dir True,
               [''c'', ''b'', ''a''] \<mapsto> Dir True]) \<and>
   try_create_dir os_makedirs [''c'', ''b'', ''a'']
     [[''a''] \<mapsto> Dir True, [''b'', ''a''] \<mapsto> Dir True, [''c'', ''b'', ''a''] \<mapsto> Dir True] =
     (Inr (), [[''a''] \<mapsto> Dir True, [''b'', ''a''] \<mapsto> Dir True,
               [''c'', ''b'', ''a''] \<mapsto> Dir True])"
proof -
  let ?fs1 = "[[''a''] \<mapsto> Dir True, [''b'', ''a''] \<mapsto> Dir True, [''c'', ''b'', ''a''] \<mapsto> Dir True]"
  have a: "os_makedirs [[''a''] \<mapsto> File] [''b'', ''a''] = (Inl (OSError ENOTDIR), [[''a''] \<mapsto> File])
      \<and> ENOTDIR \<noteq> EEXIST"
    by (simp add: ENOTDIR_def EEXIST_def)
  have b: "os_makedirs [[''a''] \<mapsto> Dir False] [''b'', ''a''] =
      (Inl (OSError EACCES), [[''a''] \<mapsto> Dir False]) \<and> EACCES \<noteq> EEXIST"
    by (simp add: EACCES_def EEXIST_def)
  have c: "try_create_dir os_makedirs [''c'', ''b'', ''a''] Map.empty = (Inr (), ?fs1)"
    by (simp add: try_create_dir_def)
  have d: "lookup ?fs1 [''c'', ''b'', ''a''] = Some (Dir True)" by simp
  show ?thesis
    using a b c d
      try_create_dir_existing_directory [where makedirs = os_makedirs
        and fs = "[[''a''] \<mapsto> File]" and p = "[''b'', ''a'']" and errno = ENOTDIR
        and fs' = "[[''a''] \<mapsto> File]" and ?fs0.0 = Map.empty and q = "[''c'', ''b'', ''a'']"
        and ?fs1.0 = ?fs1 and w = True]
      try_create_dir_existing_directory [where makedirs = os_makedirs
        and fs = "[[''a''] \<mapsto> Dir False]" and p = "[''b'', ''a'']" and errno = EACCES
        and fs' = "[[''a''] \<mapsto> Dir False]" and ?fs0.0 = ?fs1 and q = "[''c'', ''b'', ''a'']"
        and ?fs1.0 = ?fs1 and w = True]
    by simp
qed

text \<open>
  C9. \<^verbatim>\<open>try_create_dir\<close> drops every \<open>OSError\<close> of \<^verbatim>\<open>os.makedirs\<close> whose \<open>errno\<close> is
  \<open>EEXIST\<close>, whatever exists at the path. On the file system above, a call on a path that
  is a regular file returns without an error and leaves the file system as it was: the
  path is still a file, and no directory has been made.
\<close>

theorem try_create_dir_existing_file:
  "(makedirs fs p = (Inl (OSError EEXIST), fs') \<longrightarrow>
      try_create_dir makedirs p fs = (Inr (), fs')) \<and>
   (lookup fs0 q = Some File \<longrightarrow>
      os_makedirs fs0 q = (Inl (OSError EEXIST), fs0) \<and>
      try_create_dir os_makedirs q fs0 = (Inr (), fs0))"
proof -
  have "try_create_dir makedirs p fs = (Inr (), fs')"
    if "makedirs fs p = (Inl (OSError EEXIST), fs')"
    using that by (simp add: try_create_dir_def)
  moreover have "os_makedirs fs0 q = (Inl (OSError EEXIST), fs0) \<and>
      try_create_dir os_makedirs q fs0 = (Inr (), fs0)" if "lookup fs0 q = Some File"
    using that os_makedirs_existing [of fs0 q] try_create_dir_existing [of fs0 q] by simp
  ultimately show ?thesis by blast
qed

text \<open>C9 at the regular file \<^verbatim>\<open>a/f\<close>.\<close>

theorem try_create_dir_existing_file_witness:
  "lookup [[''a''] \<mapsto> Dir True, [''f'', ''a''] \<mapsto> File] [''f'', ''a''] = Some File \<and>
   try_create_dir os_makedirs [''f'', ''a''] [[''a''] \<mapsto> Dir True, [''f'', ''a''] \<mapsto> File] =
     (Inr (), [[''a''] \<mapsto> Dir True, [''f'', ''a''] \<mapsto> File])"
proof -
  let ?fs = "[[''a''] \<mapsto> Dir True, [''f'', ''a''] \<mapsto> File]"
  have a: "lookup ?fs [''f'', ''a''] = Some File" by simp
  have b: "os_makedirs ?fs [''f'', ''a''] = (Inl (OSError EEXIST), ?fs)" by simp
  show ?thesis
    using a b try_create_dir_existing_file [where makedirs = os_makedirs and fs = ?fs
        and p = "[''f'', ''a'']" and fs' = ?fs and ?fs0.0 = ?fs and q = "[''f'', ''a'']"]
    by simp
qed

end
